theory Spec2Isabelle
  imports Complex_Main
begin

section \<open>Data model\<close>

text \<open>
  A method of the catalog, as \<^verbatim>\<open>csv-to-json.js\<close> builds it: \<^verbatim>\<open>name\<close>,
  \<^verbatim>\<open>description\<close> and \<^verbatim>\<open>attributes\<close> are always present, the other
  properties only once a column has assigned them (\<open>None\<close> is the absent property).
  \<^verbatim>\<open>attributes\<close> is an object from category id to an array of option names.
  The property \<^verbatim>\<open>type\<close> is the field \<open>mtype\<close>.
\<close>

record Method =
  name :: string
  description :: string
  attributes :: "string \<rightharpoonup> string list"
  link :: "string option"
  link2 :: "string option"
  costTier :: "string option"
  connectivity :: "string option"
  mtype :: "string option"

text \<open>
  \<^verbatim>\<open>userSelections\<close>: an object from category id to the array of chosen values. A key
  may be absent (\<open>None\<close>) or hold the empty array (\<open>Some []\<close>).
\<close>

type_synonym selections = "string \<rightharpoonup> string list"

section \<open>Semantic validation: \<^verbatim>\<open>isSemanticMismatch\<close>\<close>

text \<open>\<^verbatim>\<open>x || []\<close> for an array-valued property: the array itself, or \<open>[]\<close> when absent.\<close>

definition orEmpty :: "'a list option \<Rightarrow> 'a list" where
  "orEmpty x = (case x of None \<Rightarrow> [] | Some xs \<Rightarrow> xs)"

text \<open>\<^verbatim>\<open>userSemLevels.some(level => methodSemLevels.includes(level))\<close>\<close>

definition hasOverlap :: "string list \<Rightarrow> string list \<Rightarrow> bool" where
  "hasOverlap userSemLevels methodSemLevels =
     list_ex (\<lambda>level. level \<in> set methodSemLevels) userSemLevels"

text \<open>
  Rule 1 of \<^verbatim>\<open>isSemanticMismatch\<close>. The guard \<^verbatim>\<open>if (userSelections.sem_level)\<close>
  tests the property for truthiness: every array, the empty one too, is truthy, so the
  guard holds exactly when the key is present.
\<close>

definition semLevelRule :: "Method \<Rightarrow> selections \<Rightarrow> bool" where
  "semLevelRule m userSelections =
     (case userSelections ''sem_level'' of
        None \<Rightarrow> False
      | Some userSemLevels \<Rightarrow>
          (let methodSemLevels = orEmpty (attributes m ''sem_level'')
           in \<not> hasOverlap userSemLevels methodSemLevels \<and> length methodSemLevels > 0))"

definition digitalMethods :: "string list" where
  "digitalMethods =
     [''Quantitative Surveys (Digital/Online)'',
      ''Digital Diaries/Journals'',
      ''Participatory Video/Digital Storytelling'',
      ''Real-Time Polling (U-Report)'',
      ''Social Listening/Digital Traces'']"

definition techKey :: string where
  "techKey = ''participants_access_to_technology_eg_phones_internet''"

text \<open>Rule 2: a digital method when only \<^verbatim>\<open>'Low'\<close> technology access is selected.\<close>

definition digitalRule :: "Method \<Rightarrow> selections \<Rightarrow> bool" where
  "digitalRule m userSelections =
     (name m \<in> set digitalMethods \<and>
      (let userTech = orEmpty (userSelections techKey)
       in ''Low'' \<in> set userTech \<and> length userTech = 1))"

definition visibilityMethods :: "string list" where
  "visibilityMethods = [''Photovoice'', ''Participatory Video/Digital Storytelling'']"

definition culturalKey :: string where
  "culturalKey = ''level_of_cultural_restrictiveness''"

text \<open>Rule 3: a visibility method when only \<^verbatim>\<open>'High'\<close> restrictiveness is selected.\<close>

definition visibilityRule :: "Method \<Rightarrow> selections \<Rightarrow> bool" where
  "visibilityRule m userSelections =
     (name m \<in> set visibilityMethods \<and>
      (let userCultural = orEmpty (userSelections culturalKey)
       in ''High'' \<in> set userCultural \<and> length userCultural = 1))"

text \<open>The three rules in the order of the source, each returning \<^verbatim>\<open>true\<close> at once.\<close>

definition isSemanticMismatch :: "Method \<Rightarrow> selections \<Rightarrow> bool" where
  "isSemanticMismatch m userSelections =
     (if semLevelRule m userSelections then True
      else if digitalRule m userSelections then True
      else if visibilityRule m userSelections then True
      else False)"

text \<open>
  The Phase 2 variant of the SEM-level check, written inline in
  \<^verbatim>\<open>groupMethodsByFit\<close>; \<open>True\<close> is the \<^verbatim>\<open>continue\<close> that skips the method.
  \<^verbatim>\<open>userFilterSelections\<close> is a variable of \<^verbatim>\<open>groupMethodsByFit\<close> that the snippet
  only reads, so it is a parameter here.
\<close>

definition semLevelCheckPhase2 :: "string list \<Rightarrow> Method \<Rightarrow> selections \<Rightarrow> bool" where
  "semLevelCheckPhase2 userFilterSelections m userSelections =
     (if ''sem_level'' \<in> set userFilterSelections then
        (let methodSemLevels = orEmpty (attributes m ''sem_level'');
             userSemLevels = orEmpty (userSelections ''sem_level'')
         in if length userSemLevels > 0 \<and> length methodSemLevels > 0
            then \<not> hasOverlap userSemLevels methodSemLevels
            else False)
      else False)"

section \<open>Tier classification: \<^verbatim>\<open>groupMethodsByFit\<close>\<close>

text \<open>
  The entry pushed into a tier. \<^verbatim>\<open>matchPercentage\<close> is on the scale 0 to 100 (the
  source compares it with \<^verbatim>\<open>100\<close> and \<^verbatim>\<open>80\<close>); it is an exact rational here.
\<close>

record methodData =
  md_method :: Method
  mismatches :: "string list"
  matchPercentage :: rat

text \<open>
  Modelled from the spec: the \<open>excluded\<close> bucket of the result (section 4.3 of the
  specification names four buckets). The source pushes into \<^verbatim>\<open>groups.bestFit\<close> and
  \<^verbatim>\<open>groups.goodAlternatives\<close>, speaks of the stretch options as the third tier,
  and never pushes into an excluded bucket.
\<close>

record groups =
  bestFit :: "methodData list"
  goodAlternatives :: "methodData list"
  stretchOptions :: "methodData list"
  excluded :: "methodData list"

definition emptyGroups :: groups where
  "emptyGroups = \<lparr>bestFit = [], goodAlternatives = [], stretchOptions = [], excluded = []\<rparr>"

text \<open>
  Modelled from the spec: the rest of the categorisation, which the source elides as
  \<^verbatim>\<open>// ...etc\<close>. By section 4.3 a percentage above 0 and below 0.8 (here 80) goes
  to \<open>stretchOptions\<close>, and a method matching nothing is listed nowhere.
\<close>

definition stretchBranch :: "groups \<Rightarrow> methodData \<Rightarrow> groups" where
  "stretchBranch g d =
     (if matchPercentage d > 0 then g\<lparr>stretchOptions := stretchOptions g @ [d]\<rparr>
      else g)"

text \<open>
  The percentage-based categorisation of the source: \<^verbatim>\<open>=== 100\<close> pushes into
  \<^verbatim>\<open>groups.bestFit\<close>, \<^verbatim>\<open>>= 80\<close> into \<^verbatim>\<open>groups.goodAlternatives\<close>.
\<close>

definition categorize :: "groups \<Rightarrow> methodData \<Rightarrow> groups" where
  "categorize g d =
     (if matchPercentage d = 100 then g\<lparr>bestFit := bestFit g @ [d]\<rparr>
      else if matchPercentage d \<ge> 80 then g\<lparr>goodAlternatives := goodAlternatives g @ [d]\<rparr>
      else stretchBranch g d)"

text \<open>
  One iteration of the loop of \<^verbatim>\<open>groupMethodsByFit\<close>. The computation of
  \<^verbatim>\<open>mismatches\<close> and \<^verbatim>\<open>matchPercentage\<close> precedes the snippet and is not part of
  the source, so it is the parameter \<open>score\<close>. A semantic mismatch is the
  \<^verbatim>\<open>continue\<close>: the groups stay as they are.
\<close>

definition entryOf :: "(Method \<Rightarrow> selections \<Rightarrow> string list \<times> rat) \<Rightarrow> Method \<Rightarrow> selections \<Rightarrow> methodData" where
  "entryOf score m userSelections =
     \<lparr>md_method = m, mismatches = fst (score m userSelections),
      matchPercentage = snd (score m userSelections)\<rparr>"

definition groupStep ::
  "(Method \<Rightarrow> selections \<Rightarrow> string list \<times> rat) \<Rightarrow> selections \<Rightarrow> groups \<Rightarrow> Method \<Rightarrow> groups" where
  "groupStep score userSelections g m =
     (if isSemanticMismatch m userSelections then g
      else categorize g (entryOf score m userSelections))"

fun groupLoop ::
  "(Method \<Rightarrow> selections \<Rightarrow> string list \<times> rat) \<Rightarrow> selections \<Rightarrow> groups \<Rightarrow> Method list \<Rightarrow> groups" where
  "groupLoop score userSelections g [] = g"
| "groupLoop score userSelections g (m # ms) =
     groupLoop score userSelections (groupStep score userSelections g m) ms"

definition groupMethodsByFit ::
  "(Method \<Rightarrow> selections \<Rightarrow> string list \<times> rat) \<Rightarrow> Method list \<Rightarrow> selections \<Rightarrow> groups" where
  "groupMethodsByFit score methods userSelections =
     groupLoop score userSelections emptyGroups methods"

section \<open>CSV ingestion: \<^verbatim>\<open>csv-to-json.js\<close>\<close>

subsection \<open>String operations\<close>

text \<open>
  A \<open>char\<close> stands for a code unit below 256. In that range the white space of
  \<^verbatim>\<open>trim()\<close> and of the regular expression class \<^verbatim>\<open>\s\<close> is tab, line feed,
  vertical tab, form feed, carriage return, space and no-break space; the line
  terminators, which \<^verbatim>\<open>.\<close> does not match, are line feed and carriage return.
\<close>

definition isSpace :: "char \<Rightarrow> bool" where
  "isSpace c \<longleftrightarrow> c \<in> set [CHR 0x09, CHR 0x0A, CHR 0x0B, CHR 0x0C, CHR 0x0D, CHR 0x20, CHR 0xA0]"

definition isLineTerminator :: "char \<Rightarrow> bool" where
  "isLineTerminator c \<longleftrightarrow> c = CHR 0x0A \<or> c = CHR 0x0D"

definition trim :: "string \<Rightarrow> string" where
  "trim s = rev (dropWhile isSpace (rev (dropWhile isSpace s)))"

text \<open>\<^verbatim>\<open>toLowerCase()\<close>: the letters A to Z, and the capital letters of Latin-1.\<close>

definition lowerChar :: "char \<Rightarrow> char" where
  "lowerChar c =
     (let n = (of_char c :: nat)
      in if (65 \<le> n \<and> n \<le> 90) \<or> (192 \<le> n \<and> n \<le> 222 \<and> n \<noteq> 215)
         then char_of (n + 32) else c)"

definition toLowerCase :: "string \<Rightarrow> string" where
  "toLowerCase s = map lowerChar s"

text \<open>\<^verbatim>\<open>s.split(sep)\<close> for a separator of one character; the result is never empty.\<close>

fun split :: "char \<Rightarrow> string \<Rightarrow> string list" where
  "split sep [] = [[]]"
| "split sep (c # cs) =
     (if c = sep then [] # split sep cs
      else (case split sep cs of [] \<Rightarrow> [[c]] | w # ws \<Rightarrow> (c # w) # ws))"

definition startsWith :: "string \<Rightarrow> string \<Rightarrow> bool" where
  "startsWith s p \<longleftrightarrow> take (length p) s = p"

text \<open>\<^verbatim>\<open>replace(/\s+/g, '_')\<close>: every maximal run of white space becomes one underscore.\<close>

function replaceSpaceRuns :: "string \<Rightarrow> string" where
  "replaceSpaceRuns [] = []"
| "replaceSpaceRuns (c # cs) =
     (if isSpace c then CHR ''_'' # replaceSpaceRuns (dropWhile isSpace cs)
      else c # replaceSpaceRuns cs)"
  by pat_completeness auto
termination
  by (relation "measure length") (auto simp: length_dropWhile_le less_Suc_eq_le)

text \<open>\<^verbatim>\<open>replace(/[^a-z0-9_]/g, '')\<close>\<close>

definition isIdChar :: "char \<Rightarrow> bool" where
  "isIdChar c =
     (let n = (of_char c :: nat)
      in (97 \<le> n \<and> n \<le> 122) \<or> (48 \<le> n \<and> n \<le> 57) \<or> c = CHR ''_'')"

definition categoryIdOf :: "string \<Rightarrow> string" where
  "categoryIdOf categoryName = filter isIdChar (replaceSpaceRuns (toLowerCase categoryName))"

subsection \<open>The header pattern \<^verbatim>\<open>/^(.+?)\s*-\s*(.+)$/\<close>\<close>

text \<open>
  \<open>optionGroup r\<close> matches \<^verbatim>\<open>\s*(.+)$\<close> against the text after the hyphen and
  returns the second group. The greedy \<^verbatim>\<open>\s*\<close> takes the whole run of white space
  when something is left for the group; when nothing is left it gives back one
  character, which is then the group.
\<close>

definition optionGroup :: "string \<Rightarrow> string option" where
  "optionGroup r =
     (let rest = dropWhile isSpace r
      in if rest \<noteq> [] then (if list_ex isLineTerminator rest then None else Some rest)
         else if r = [] then None
         else if isLineTerminator (last r) then None
         else Some [last r])"

text \<open>\<open>restMatch r\<close> matches \<^verbatim>\<open>\s*-\s*(.+)$\<close>: the first \<^verbatim>\<open>\s*\<close> must reach the hyphen.\<close>

definition restMatch :: "string \<Rightarrow> string option" where
  "restMatch r =
     (case dropWhile isSpace r of
        [] \<Rightarrow> None
      | c # r2 \<Rightarrow> if c = CHR ''-'' then optionGroup r2 else None)"

text \<open>
  The lazy first group grows one character at a time, from one character on, until the
  rest of the pattern matches; it cannot cross a line terminator.
\<close>

fun headerMatchFrom :: "string \<Rightarrow> string \<Rightarrow> (string \<times> string) option" where
  "headerMatchFrom pre [] = None"
| "headerMatchFrom pre (c # cs) =
     (if isLineTerminator c then None
      else (case restMatch cs of
              Some g2 \<Rightarrow> Some (pre @ [c], g2)
            | None \<Rightarrow> headerMatchFrom (pre @ [c]) cs))"

definition headerMatch :: "string \<Rightarrow> (string \<times> string) option" where
  "headerMatch header = headerMatchFrom [] header"

subsection \<open>Categories from the header line\<close>

record category =
  cat_id :: string
  cat_name :: string
  options :: "string list"

text \<open>
  The array \<^verbatim>\<open>categories\<close> and the object \<^verbatim>\<open>categoryMap\<close> share their category
  objects: \<^verbatim>\<open>categoryMap\<close> is the store of the objects, under the key each was
  created for, and \<^verbatim>\<open>categories\<close> lists references to them, which are those keys.
\<close>

record convState =
  categories :: "string list"
  categoryMap :: "string \<rightharpoonup> category"

datatype error = TypeError

text \<open>
  \<^verbatim>\<open>categoryMap\<close> and \<^verbatim>\<open>method.attributes\<close> start as \<^verbatim>\<open>{}\<close>, which inherits from
  \<^verbatim>\<open>Object.prototype\<close>. Of the inherited property names only these two consist of
  characters a category id can have; reading them gives a truthy value that is not a
  category and not an array.
\<close>

definition inheritedKeys :: "string list" where
  "inheritedKeys = [''constructor'', ''__proto__'']"

definition isLinkHeader :: "string \<Rightarrow> bool" where
  "isLinkHeader headerLower \<longleftrightarrow>
     headerLower = ''link'' \<or> headerLower = ''url'' \<or> headerLower = ''reference''"

text \<open>
  One iteration of the loop over the headers. For an inherited key the test
  \<^verbatim>\<open>!categoryMap[categoryId]\<close> is false and \<^verbatim>\<open>categoryMap[categoryId].options\<close> is
  \<^verbatim>\<open>undefined\<close>, so \<^verbatim>\<open>.includes\<close> throws.
\<close>

definition headerStep :: "convState \<Rightarrow> string \<Rightarrow> error + convState" where
  "headerStep st header =
     (let headerLower = trim (toLowerCase header)
      in if isLinkHeader headerLower then Inr st
         else (case headerMatch header of
                 None \<Rightarrow> Inr st
               | Some (g1, g2) \<Rightarrow>
                   (let categoryName = trim g1;
                        optionName = trim g2;
                        categoryId = categoryIdOf categoryName
                    in if categoryId \<in> set inheritedKeys then Inl TypeError
                       else
                         (let st1 = (if categoryMap st categoryId = None
                                     then st\<lparr>categories := categories st @ [categoryId],
                                             categoryMap := (categoryMap st)(categoryId \<mapsto>
                                               \<lparr>cat_id = categoryId, cat_name = categoryName,
                                                options = []\<rparr>)\<rparr>
                                     else st)
                          in (case categoryMap st1 categoryId of
                                None \<Rightarrow> Inl TypeError
                              | Some c \<Rightarrow>
                                  if optionName \<notin> set (options c)
                                  then Inr (st1\<lparr>categoryMap := (categoryMap st1)(categoryId \<mapsto>
                                              c\<lparr>options := options c @ [optionName]\<rparr>)\<rparr>)
                                  else Inr st1)))))"

fun processHeaders :: "convState \<Rightarrow> string list \<Rightarrow> error + convState" where
  "processHeaders st [] = Inr st"
| "processHeaders st (header # hs) =
     (case headerStep st header of
        Inl e \<Rightarrow> Inl e
      | Inr st' \<Rightarrow> processHeaders st' hs)"

subsection \<open>Methods from the data rows\<close>

text \<open>
  The link branch, shared by the \<^verbatim>\<open>Link\<close> and \<^verbatim>\<open>Link2\<close> columns: the value to
  assign, or \<open>None\<close> when nothing is assigned.
\<close>

definition normalizeLink :: "string \<Rightarrow> string option" where
  "normalizeLink v =
     (if v \<noteq> [] \<and> v \<noteq> ''null'' \<and> trim v \<noteq> [] then
        (if startsWith v ''http://'' \<or> startsWith v ''https://'' \<or> startsWith v ''www.''
         then Some (if startsWith v ''www.'' then ''https://'' @ v else v)
         else if CHR ''.'' \<in> set v \<and> CHR '' '' \<notin> set v then Some (''https://'' @ v)
         else None)
      else None)"

definition truthyValues :: "string list" where
  "truthyValues = [''true'', ''yes'', ''1'', ''x'', ''TRUE'', ''YES'', ''X'', ''True'', ''Yes'']"

text \<open>
  One iteration of the loop over the columns of a row: the header of the column and the
  cell. The comparison \<^verbatim>\<open>value === true\<close> is always false for a string.
\<close>

definition cellStep :: "Method \<Rightarrow> string \<times> string \<Rightarrow> error + Method" where
  "cellStep m hv =
     (let header = fst hv; v = trim (snd hv)
      in if v = [] then Inr m
         else
          (let headerLower = trim (toLowerCase header)
           in if isLinkHeader headerLower then
                Inr (case normalizeLink v of None \<Rightarrow> m | Some l \<Rightarrow> m\<lparr>link := Some l\<rparr>)
              else if headerLower = ''link2'' then
                Inr (case normalizeLink v of None \<Rightarrow> m | Some l \<Rightarrow> m\<lparr>link2 := Some l\<rparr>)
              else if headerLower = ''cost tier'' then
                Inr (if v \<noteq> [] \<and> v \<noteq> ''null'' then m\<lparr>costTier := Some v\<rparr> else m)
              else if headerLower = ''connectivity'' then
                Inr (if v \<noteq> [] \<and> v \<noteq> ''null'' then m\<lparr>connectivity := Some v\<rparr> else m)
              else if headerLower = ''type'' then
                Inr (if v \<noteq> [] \<and> v \<noteq> ''null'' then m\<lparr>mtype := Some v\<rparr> else m)
              else if headerLower = ''description'' then
                Inr (if v \<noteq> [] \<and> v \<noteq> ''null'' \<and> trim v \<noteq> [] then m\<lparr>description := v\<rparr> else m)
              else
                (case headerMatch header of
                   None \<Rightarrow> Inr m
                 | Some (g1, g2) \<Rightarrow>
                     (let categoryName = trim g1;
                          optionName = trim g2;
                          categoryId = categoryIdOf categoryName
                      in if categoryId \<in> set inheritedKeys then
                           (if v \<in> set truthyValues then Inl TypeError else Inr m)
                         else
                           (let m1 = (if attributes m categoryId = None
                                      then m\<lparr>attributes := (attributes m)(categoryId \<mapsto> [])\<rparr>
                                      else m)
                            in if v \<in> set truthyValues then
                                 (case attributes m1 categoryId of
                                    None \<Rightarrow> Inl TypeError
                                  | Some arr \<Rightarrow>
                                      if optionName \<notin> set arr
                                      then Inr (m1\<lparr>attributes := (attributes m1)(categoryId \<mapsto>
                                                  arr @ [optionName])\<rparr>)
                                      else Inr m1)
                               else Inr m1)))))"

fun processCells :: "Method \<Rightarrow> (string \<times> string) list \<Rightarrow> error + Method" where
  "processCells m [] = Inr m"
| "processCells m (hv # hvs) =
     (case cellStep m hv of
        Inl e \<Rightarrow> Inl e
      | Inr m' \<Rightarrow> processCells m' hvs)"

definition defaultDescription :: "string \<Rightarrow> string" where
  "defaultDescription methodName =
     methodName @ '' methodology for adolescent girl empowerment research''"

text \<open>
  One data row: \<open>Inr None\<close> is the \<^verbatim>\<open>continue\<close> on an empty method name. The columns
  run from index 1 while both a value and a header exist.
\<close>

definition processRow :: "string list \<Rightarrow> string \<Rightarrow> error + Method option" where
  "processRow headers line =
     (case split CHR '';'' line of
        [] \<Rightarrow> Inl TypeError
      | v0 # vs \<Rightarrow>
          (let methodName = trim v0
           in if methodName = [] then Inr None
              else
                (case processCells
                        \<lparr>name = methodName, description = [], attributes = Map.empty,
                         link = None, link2 = None, costTier = None, connectivity = None,
                         mtype = None\<rparr>
                        (zip (drop 1 headers) vs) of
                   Inl e \<Rightarrow> Inl e
                 | Inr m \<Rightarrow>
                     Inr (Some (if description m = [] \<or> trim (description m) = []
                                then m\<lparr>description := defaultDescription methodName\<rparr>
                                else m)))))"

fun processRows :: "string list \<Rightarrow> string list \<Rightarrow> error + Method list" where
  "processRows headers [] = Inr []"
| "processRows headers (line # ls) =
     (case processRow headers line of
        Inl e \<Rightarrow> Inl e
      | Inr r \<Rightarrow>
          (case processRows headers ls of
             Inl e \<Rightarrow> Inl e
           | Inr ms \<Rightarrow> Inr (case r of None \<Rightarrow> ms | Some m \<Rightarrow> m # ms)))"

text \<open>\<^verbatim>\<open>values[0].trim()\<close> of a data row: the method name that decides whether the row is kept.\<close>

definition methodNameOf :: "string \<Rightarrow> string" where
  "methodNameOf line = (case split CHR '';'' line of [] \<Rightarrow> [] | v0 # vs \<Rightarrow> trim v0)"

record jsonData =
  json_categories :: "category list"
  json_methods :: "Method list"

text \<open>
  The body of the \<^verbatim>\<open>readFile\<close> callback on the text of the file. Without a non-empty
  line \<^verbatim>\<open>lines[0]\<close> is \<^verbatim>\<open>undefined\<close> and \<^verbatim>\<open>.split\<close> throws. The output lists the
  category objects that \<^verbatim>\<open>categories\<close> refers to.
\<close>

definition csvToJson :: "string \<Rightarrow> error + jsonData" where
  "csvToJson data =
     (case filter (\<lambda>line. line \<noteq> []) (map trim (split CHR 0x0A data)) of
        [] \<Rightarrow> Inl TypeError
      | l0 # rows \<Rightarrow>
          (let headers = split CHR '';'' l0
           in (case processHeaders \<lparr>categories = [], categoryMap = Map.empty\<rparr> (drop 1 headers) of
                 Inl e \<Rightarrow> Inl e
               | Inr st \<Rightarrow>
                   (case processRows headers rows of
                      Inl e \<Rightarrow> Inl e
                    | Inr ms \<Rightarrow>
                        Inr \<lparr>json_categories = List.map_filter (categoryMap st) (categories st),
                             json_methods = ms\<rparr>))))"

subsection \<open>Invariants of the conversion\<close>

text \<open>
  The references in \<open>categories\<close> are distinct, they are exactly the keys of
  \<open>categoryMap\<close>, and every category object carries the key it is stored under as
  its id.
\<close>

definition categoriesInv :: "convState \<Rightarrow> bool" where
  "categoriesInv st \<longleftrightarrow>
     distinct (categories st)
     \<and> (\<forall>k. k \<in> set (categories st) \<longleftrightarrow> categoryMap st k \<noteq> None)
     \<and> (\<forall>k c. categoryMap st k = Some c \<longrightarrow> cat_id c = k)"

definition optionsInv :: "convState \<Rightarrow> bool" where
  "optionsInv st \<longleftrightarrow> (\<forall>k c. categoryMap st k = Some c \<longrightarrow> distinct (options c))"

definition attributesInv :: "Method \<Rightarrow> bool" where
  "attributesInv m \<longleftrightarrow> (\<forall>k xs. attributes m k = Some xs \<longrightarrow> distinct xs)"

section \<open>Example inputs\<close>

definition mkMethod :: "string \<Rightarrow> (string \<rightharpoonup> string list) \<Rightarrow> Method" where
  "mkMethod n a = \<lparr>name = n, description = [], attributes = a, link = None, link2 = None,
                  costTier = None, connectivity = None, mtype = None\<rparr>"

definition adminData :: Method where
  "adminData = mkMethod ''Administrative Data'' [''sem_level'' \<mapsto> [''Institutional'']]"

definition interviews :: Method where
  "interviews = mkMethod ''One-on-One Interviews'' [''sem_level'' \<mapsto> [''Individual'']]"

definition undeclared :: Method where
  "undeclared = mkMethod ''Undeclared'' Map.empty"

definition participatoryVideo :: Method where
  "participatoryVideo = mkMethod ''Participatory Video/Digital Storytelling'' Map.empty"

definition photovoice :: Method where
  "photovoice = mkMethod ''Photovoice'' Map.empty"

definition selIndividual :: selections where
  "selIndividual = [''sem_level'' \<mapsto> [''Individual'']]"

definition selEmptyLevel :: selections where
  "selEmptyLevel = [''sem_level'' \<mapsto> []]"

definition selTech :: "string list \<Rightarrow> selections" where
  "selTech vs = [techKey \<mapsto> vs]"

definition selCultural :: "string list \<Rightarrow> selections" where
  "selCultural vs = [culturalKey \<mapsto> vs]"

text \<open>A scorer that gives every method the same percentage.\<close>

definition constScore :: "rat \<Rightarrow> Method \<Rightarrow> selections \<Rightarrow> string list \<times> rat" where
  "constScore p m userSelections = ([], p)"

text \<open>
  A file of three lines: two headers derive the id \<^verbatim>\<open>sem_level\<close> and name the same
  option, and the second data row has \<^verbatim>\<open>null\<close> in the link column.
\<close>

definition sampleCsv :: string where
  "sampleCsv =
     ''Method;SEM Level - Individual;Sem  level - Individual;SEM Level - Group;Link''
     @ [CHR 0x0A] @ ''Interviews;x;yes;;www.example.org''
     @ [CHR 0x0A] @ ''Surveys;no;;TRUE;null''"

definition sampleJson :: jsonData where
  "sampleJson = projr (csvToJson sampleCsv)"

text \<open>
  A file with two link columns, a row without a method name, and cells of every kind
  the link branch distinguishes.
\<close>

definition linkCsv :: string where
  "linkCsv =
     ''Method;Link;URL''
     @ [CHR 0x0A] @ ''A;http://example.org/a''
     @ [CHR 0x0A] @ '';x''
     @ [CHR 0x0A] @ ''B;null; www.example.org ''
     @ [CHR 0x0A] @ ''C;example.org/a;null''
     @ [CHR 0x0A] @ ''D;null;''"

definition linkJson :: jsonData where
  "linkJson = projr (csvToJson linkCsv)"

text \<open>A file whose single data row holds a link in each of two \<^verbatim>\<open>Link\<close> columns.\<close>

definition twoLinkCsv :: string where
  "twoLinkCsv = ''Method;Link;Link'' @ [CHR 0x0A] @ ''Interviews;http://a.org;www.b.org''"


section \<open>Properties of the semantic validation\<close>

lemmas example_defs = mkMethod_def adminData_def interviews_def undeclared_def
  participatoryVideo_def photovoice_def selIndividual_def selEmptyLevel_def selTech_def
  selCultural_def constScore_def

lemma hasOverlap_iff: "hasOverlap us ms \<longleftrightarrow> set us \<inter> set ms \<noteq> {}"
  by (auto simp: hasOverlap_def list_ex_iff)

lemma only_value_iff: "(x \<in> set xs \<and> length xs = Suc 0) \<longleftrightarrow> xs = [x]"
  by (cases xs) auto

lemma only_value_set_iff: "distinct xs \<Longrightarrow> xs = [x] \<longleftrightarrow> set xs = {x}"
proof
  assume "distinct xs" "set xs = {x}"
  then have "card (set xs) = 1" by simp
  with \<open>distinct xs\<close> have "length xs = 1" by (simp add: distinct_card)
  moreover from \<open>set xs = {x}\<close> have "x \<in> set xs" by simp
  ultimately show "xs = [x]" by (simp add: only_value_iff [symmetric])
qed simp

text \<open>
  Claim C1. When the method declares at least one SEM level, the selection has the key
  \<^verbatim>\<open>sem_level\<close>, and no declared level is among the selected ones, then
  \<open>isSemanticMismatch\<close> returns true. A method that declares no level (the key absent
  or the array empty) is never excluded by rule 1.
\<close>

theorem level_overlap_excludes:
  "(attributes m ''sem_level'' = Some ms \<and> ms \<noteq> [] \<and> userSelections ''sem_level'' = Some us
      \<and> set ms \<inter> set us = {} \<longrightarrow> isSemanticMismatch m userSelections)
   \<and> (orEmpty (attributes m ''sem_level'') = [] \<longrightarrow> \<not> semLevelRule m userSelections)"
  by (auto simp: isSemanticMismatch_def semLevelRule_def hasOverlap_iff orEmpty_def
           split: option.splits)

theorem level_overlap_excludes_witness:
  "attributes adminData ''sem_level'' = Some [''Institutional'']
   \<and> selIndividual ''sem_level'' = Some [''Individual'']
   \<and> isSemanticMismatch adminData selIndividual
   \<and> orEmpty (attributes undeclared ''sem_level'') = []
   \<and> \<not> semLevelRule undeclared selIndividual"
  using level_overlap_excludes [of adminData "[''Institutional'']" selIndividual "[''Individual'']"]
        level_overlap_excludes [of undeclared "[]" selIndividual "[]"]
  by (simp add: example_defs orEmpty_def)

text \<open>
  Claim C3. For a method named in \<open>digitalMethods\<close>, rule 2 fires exactly when the
  technology selection is the one-element array \<^verbatim>\<open>['Low']\<close>; for a selection without
  repeated values that is exactly when its set of values is \<open>{Low}\<close>. A selection of
  more than one value, such as Low and Medium, never fires it. When the rule fires,
  \<open>isSemanticMismatch\<close> returns true.
\<close>

theorem technology_floor_rule:
  assumes "name m \<in> set digitalMethods"
  shows "(digitalRule m userSelections \<longleftrightarrow> orEmpty (userSelections techKey) = [''Low''])
       \<and> (distinct (orEmpty (userSelections techKey)) \<longrightarrow>
            (digitalRule m userSelections \<longleftrightarrow> set (orEmpty (userSelections techKey)) = {''Low''}))
       \<and> (length (orEmpty (userSelections techKey)) > 1 \<longrightarrow> \<not> digitalRule m userSelections)
       \<and> (digitalRule m userSelections \<longrightarrow> isSemanticMismatch m userSelections)"
proof -
  have exact: "digitalRule m userSelections \<longleftrightarrow> orEmpty (userSelections techKey) = [''Low'']"
    using assms by (simp add: digitalRule_def Let_def only_value_iff)
  moreover have "digitalRule m userSelections \<longleftrightarrow> set (orEmpty (userSelections techKey)) = {''Low''}"
    if "distinct (orEmpty (userSelections techKey))"
    using that exact by (simp add: only_value_set_iff)
  moreover have "\<not> digitalRule m userSelections" if "length (orEmpty (userSelections techKey)) > 1"
    using that exact by auto
  moreover have "isSemanticMismatch m userSelections" if "digitalRule m userSelections"
    using that by (simp add: isSemanticMismatch_def)
  ultimately show ?thesis by blast
qed

theorem technology_floor_rule_witness:
  "name participatoryVideo \<in> set digitalMethods
   \<and> digitalRule participatoryVideo (selTech [''Low''])
   \<and> isSemanticMismatch participatoryVideo (selTech [''Low''])
   \<and> distinct [''Low'', ''Medium'']
   \<and> \<not> digitalRule participatoryVideo (selTech [''Low'', ''Medium''])"
proof -
  have h: "name participatoryVideo \<in> set digitalMethods"
    by (simp add: example_defs digitalMethods_def)
  show ?thesis
    using h technology_floor_rule [OF h, of "selTech [''Low'']"]
          technology_floor_rule [OF h, of "selTech [''Low'', ''Medium'']"]
    by (simp add: selTech_def orEmpty_def)
qed

text \<open>
  Claim C4. For a method named in \<open>visibilityMethods\<close> (Photovoice is one), rule 3
  fires exactly when the cultural-restrictiveness selection is the one-element array
  \<^verbatim>\<open>['High']\<close>; for a selection without repeated values that is exactly when its set
  of values is \<open>{High}\<close>. A selection of more than one value, such as High and Low,
  never fires it. When the rule fires, \<open>isSemanticMismatch\<close> returns true.
\<close>

theorem cultural_visibility_rule:
  assumes "name m \<in> set visibilityMethods"
  shows "(visibilityRule m userSelections \<longleftrightarrow> orEmpty (userSelections culturalKey) = [''High''])
       \<and> (distinct (orEmpty (userSelections culturalKey)) \<longrightarrow>
            (visibilityRule m userSelections \<longleftrightarrow> set (orEmpty (userSelections culturalKey)) = {''High''}))
       \<and> (length (orEmpty (userSelections culturalKey)) > 1 \<longrightarrow> \<not> visibilityRule m userSelections)
       \<and> (visibilityRule m userSelections \<longrightarrow> isSemanticMismatch m userSelections)"
proof -
  have exact: "visibilityRule m userSelections \<longleftrightarrow> orEmpty (userSelections culturalKey) = [''High'']"
    using assms by (simp add: visibilityRule_def Let_def only_value_iff)
  moreover have "visibilityRule m userSelections \<longleftrightarrow> set (orEmpty (userSelections culturalKey)) = {''High''}"
    if "distinct (orEmpty (userSelections culturalKey))"
    using that exact by (simp add: only_value_set_iff)
  moreover have "\<not> visibilityRule m userSelections" if "length (orEmpty (userSelections culturalKey)) > 1"
    using that exact by auto
  moreover have "isSemanticMismatch m userSelections" if "visibilityRule m userSelections"
    using that by (simp add: isSemanticMismatch_def)
  ultimately show ?thesis by blast
qed

theorem cultural_visibility_rule_witness:
  "name photovoice \<in> set visibilityMethods
   \<and> visibilityRule photovoice (selCultural [''High''])
   \<and> isSemanticMismatch photovoice (selCultural [''High''])
   \<and> distinct [''High'', ''Low'']
   \<and> \<not> visibilityRule photovoice (selCultural [''High'', ''Low''])"
proof -
  have h: "name photovoice \<in> set visibilityMethods"
    by (simp add: example_defs visibilityMethods_def)
  show ?thesis
    using h cultural_visibility_rule [OF h, of "selCultural [''High'']"]
          cultural_visibility_rule [OF h, of "selCultural [''High'', ''Low'']"]
    by (simp add: selCultural_def orEmpty_def)
qed

text \<open>Without the key \<^verbatim>\<open>sem_level\<close> in the selection, rule 1 never fires.\<close>

lemma semLevelRule_absent_key:
  "userSelections ''sem_level'' = None \<Longrightarrow> \<not> semLevelRule m userSelections"
  by (simp add: semLevelRule_def)

text \<open>
  Claim C6. The claim says that a selection mapping \<^verbatim>\<open>sem_level\<close> to the empty array
  (no filter) never lets rule 1 exclude a method. The source does otherwise: the empty
  array passes the guard, nothing overlaps, and a method that declares a level is
  excluded. Here the code is evaluated at ``Administrative Data'' (Institutional only)
  with the selection \<^verbatim>\<open>{sem_level: []}\<close>.
\<close>

theorem empty_level_selection_excludes:
  "selEmptyLevel ''sem_level'' = Some []
   \<and> semLevelRule adminData selEmptyLevel
   \<and> isSemanticMismatch adminData selEmptyLevel"
  by (simp add: isSemanticMismatch_def semLevelRule_def hasOverlap_def orEmpty_def example_defs)

text \<open>
  Claim C7. The claim says that rule 1 of \<open>isSemanticMismatch\<close> and the inline Phase 2
  check decide alike, also for an empty \<^verbatim>\<open>sem_level\<close> selection. At ``Administrative
  Data'' with \<^verbatim>\<open>{sem_level: []}\<close> rule 1 excludes the method and the Phase 2 check
  keeps it, whether or not \<^verbatim>\<open>userFilterSelections\<close> lists \<^verbatim>\<open>sem_level\<close>.
\<close>

theorem level_checks_disagree:
  "semLevelRule adminData selEmptyLevel
   \<and> \<not> semLevelCheckPhase2 [''sem_level''] adminData selEmptyLevel
   \<and> \<not> semLevelCheckPhase2 [] adminData selEmptyLevel"
  by (simp add: semLevelRule_def semLevelCheckPhase2_def hasOverlap_def orEmpty_def example_defs)

text \<open>
  Away from the empty selection the two checks agree, provided
  \<^verbatim>\<open>userFilterSelections\<close> lists \<^verbatim>\<open>sem_level\<close> whenever the selection has the key.
\<close>

lemma level_checks_agree:
  assumes "userSelections ''sem_level'' \<noteq> Some []"
      and "userSelections ''sem_level'' \<noteq> None \<Longrightarrow> ''sem_level'' \<in> set userFilterSelections"
  shows "semLevelCheckPhase2 userFilterSelections m userSelections = semLevelRule m userSelections"
  using assms
  by (auto simp: semLevelRule_def semLevelCheckPhase2_def orEmpty_def Let_def split: option.splits)

section \<open>Properties of the tier classification\<close>

lemma bestFit_groupLoop:
  "set (bestFit (groupLoop score us g ms)) =
     set (bestFit g) \<union> {entryOf score m us | m. m \<in> set ms \<and> \<not> isSemanticMismatch m us
                          \<and> matchPercentage (entryOf score m us) = 100}"
  by (induction ms arbitrary: g) (auto simp: groupStep_def categorize_def stretchBranch_def)

lemma goodAlternatives_groupLoop:
  "set (goodAlternatives (groupLoop score us g ms)) =
     set (goodAlternatives g) \<union> {entryOf score m us | m. m \<in> set ms \<and> \<not> isSemanticMismatch m us
                          \<and> matchPercentage (entryOf score m us) \<noteq> 100
                          \<and> matchPercentage (entryOf score m us) \<ge> 80}"
  by (induction ms arbitrary: g) (auto simp: groupStep_def categorize_def stretchBranch_def)

lemma stretchOptions_groupLoop:
  "set (stretchOptions (groupLoop score us g ms)) =
     set (stretchOptions g) \<union> {entryOf score m us | m. m \<in> set ms \<and> \<not> isSemanticMismatch m us
                          \<and> matchPercentage (entryOf score m us) < 80
                          \<and> matchPercentage (entryOf score m us) > 0}"
  by (induction ms arbitrary: g) (auto simp: groupStep_def categorize_def stretchBranch_def)

lemma excluded_groupLoop: "excluded (groupLoop score us g ms) = excluded g"
  by (induction ms arbitrary: g) (auto simp: groupStep_def categorize_def stretchBranch_def)

lemma md_method_entryOf: "md_method (entryOf score m us) = m"
  by (simp add: entryOf_def)

lemma mismatch_adminData: "isSemanticMismatch adminData selIndividual"
  by (simp add: isSemanticMismatch_def semLevelRule_def hasOverlap_def orEmpty_def example_defs)

lemma valid_interviews: "\<not> isSemanticMismatch interviews selIndividual"
  by (simp add: isSemanticMismatch_def semLevelRule_def hasOverlap_def orEmpty_def example_defs
        digitalRule_def visibilityRule_def digitalMethods_def visibilityMethods_def)

text \<open>
  Claim C2, as stated, fails: a method with a semantic mismatch is not placed in an
  \<open>excluded\<close> bucket. With ``Administrative Data'' as the whole catalog, the selection
  Individual and a match percentage of 100, the \<open>excluded\<close> bucket of the result is
  empty.
\<close>

theorem mismatch_in_excluded_counterexample:
  "isSemanticMismatch adminData selIndividual
   \<and> matchPercentage (entryOf (constScore 100) adminData selIndividual) = 100
   \<and> excluded (groupMethodsByFit (constScore 100) [adminData] selIndividual) = []"
  by (simp add: groupMethodsByFit_def groupStep_def isSemanticMismatch_def semLevelRule_def
        hasOverlap_def orEmpty_def entryOf_def emptyGroups_def example_defs)

text \<open>
  Claim C2, amended. A method for which \<open>isSemanticMismatch\<close> returns true is skipped:
  whatever its match percentage, no entry for it is in any bucket of the result, so it
  is in no suggestion tier and in no \<open>excluded\<close> bucket either.
\<close>

theorem mismatch_skipped:
  assumes "isSemanticMismatch m userSelections"
  shows "m \<notin> md_method ` (set (bestFit (groupMethodsByFit score methods userSelections))
             \<union> set (goodAlternatives (groupMethodsByFit score methods userSelections))
             \<union> set (stretchOptions (groupMethodsByFit score methods userSelections))
             \<union> set (excluded (groupMethodsByFit score methods userSelections)))"
  using assms
  by (auto simp: groupMethodsByFit_def bestFit_groupLoop goodAlternatives_groupLoop
        stretchOptions_groupLoop excluded_groupLoop emptyGroups_def md_method_entryOf)

theorem mismatch_skipped_witness:
  "isSemanticMismatch adminData selIndividual
   \<and> matchPercentage (entryOf (constScore 100) adminData selIndividual) = 100
   \<and> adminData \<notin> md_method `
        (set (bestFit (groupMethodsByFit (constScore 100) [adminData, interviews] selIndividual))
         \<union> set (goodAlternatives (groupMethodsByFit (constScore 100) [adminData, interviews] selIndividual))
         \<union> set (stretchOptions (groupMethodsByFit (constScore 100) [adminData, interviews] selIndividual))
         \<union> set (excluded (groupMethodsByFit (constScore 100) [adminData, interviews] selIndividual)))"
  using mismatch_adminData
        mismatch_skipped [OF mismatch_adminData, of "constScore 100" "[adminData, interviews]"]
  by (simp add: entryOf_def constScore_def)

text \<open>
  Claim C5. For a method of the catalog without semantic mismatch, the entry built for
  it lands by its match percentage: exactly 100 in \<open>bestFit\<close>; at least 80 and below
  100 in \<open>goodAlternatives\<close> and not in \<open>stretchOptions\<close>; above 0 and below 80 in
  \<open>stretchOptions\<close>. In each case it is in neither of the other two tiers.
\<close>

theorem tier_boundaries:
  assumes "m \<in> set methods" and "\<not> isSemanticMismatch m userSelections"
  shows "(matchPercentage (entryOf score m userSelections) = 100 \<longrightarrow>
            entryOf score m userSelections \<in> set (bestFit (groupMethodsByFit score methods userSelections))
          \<and> entryOf score m userSelections \<notin> set (goodAlternatives (groupMethodsByFit score methods userSelections))
          \<and> entryOf score m userSelections \<notin> set (stretchOptions (groupMethodsByFit score methods userSelections)))
       \<and> (80 \<le> matchPercentage (entryOf score m userSelections)
            \<and> matchPercentage (entryOf score m userSelections) < 100 \<longrightarrow>
            entryOf score m userSelections \<in> set (goodAlternatives (groupMethodsByFit score methods userSelections))
          \<and> entryOf score m userSelections \<notin> set (bestFit (groupMethodsByFit score methods userSelections))
          \<and> entryOf score m userSelections \<notin> set (stretchOptions (groupMethodsByFit score methods userSelections)))
       \<and> (0 < matchPercentage (entryOf score m userSelections)
            \<and> matchPercentage (entryOf score m userSelections) < 80 \<longrightarrow>
            entryOf score m userSelections \<in> set (stretchOptions (groupMethodsByFit score methods userSelections))
          \<and> entryOf score m userSelections \<notin> set (bestFit (groupMethodsByFit score methods userSelections))
          \<and> entryOf score m userSelections \<notin> set (goodAlternatives (groupMethodsByFit score methods userSelections)))"
  using assms
  by (auto simp: groupMethodsByFit_def bestFit_groupLoop goodAlternatives_groupLoop
        stretchOptions_groupLoop emptyGroups_def)

theorem tier_boundaries_witness:
  "interviews \<in> set [adminData, interviews] \<and> \<not> isSemanticMismatch interviews selIndividual
   \<and> entryOf (constScore 100) interviews selIndividual
        \<in> set (bestFit (groupMethodsByFit (constScore 100) [adminData, interviews] selIndividual))
   \<and> matchPercentage (entryOf (constScore (100 * 4 / 5)) interviews selIndividual) = 80
   \<and> entryOf (constScore (100 * 4 / 5)) interviews selIndividual
        \<in> set (goodAlternatives (groupMethodsByFit (constScore (100 * 4 / 5)) [adminData, interviews] selIndividual))
   \<and> entryOf (constScore (100 * 4 / 5)) interviews selIndividual
        \<notin> set (stretchOptions (groupMethodsByFit (constScore (100 * 4 / 5)) [adminData, interviews] selIndividual))
   \<and> matchPercentage (entryOf (constScore (100 * 3 / 5)) interviews selIndividual) = 60
   \<and> entryOf (constScore (100 * 3 / 5)) interviews selIndividual
        \<in> set (stretchOptions (groupMethodsByFit (constScore (100 * 3 / 5)) [adminData, interviews] selIndividual))"
proof -
  have h: "interviews \<in> set [adminData, interviews]" by simp
  have p100: "matchPercentage (entryOf (constScore 100) interviews selIndividual) = 100"
    and p80: "matchPercentage (entryOf (constScore (100 * 4 / 5)) interviews selIndividual) = 80"
    and p60: "matchPercentage (entryOf (constScore (100 * 3 / 5)) interviews selIndividual) = 60"
    by (simp_all add: entryOf_def constScore_def)
  show ?thesis
    using h valid_interviews p100 p80 p60
      tier_boundaries [OF h valid_interviews, of "constScore 100"]
      tier_boundaries [OF h valid_interviews, of "constScore (100 * 4 / 5)"]
      tier_boundaries [OF h valid_interviews, of "constScore (100 * 3 / 5)"]
    by simp
qed

section \<open>Properties of the CSV ingestion\<close>

subsection \<open>Link normalisation\<close>

lemma trim_idem: "trim (trim s) = trim s"
proof -
  define t where "t = dropWhile isSpace s"
  define u where "u = dropWhile isSpace (rev t)"
  have "dropWhile isSpace (rev u) = rev u"
  proof (cases "u = []")
    case True
    then show ?thesis by simp
  next
    case False
    then obtain x where x: "x \<in> set (rev t)" "\<not> isSpace x"
      by (auto simp: u_def)
    then have "last u = last (rev t)"
      unfolding u_def by (rule dropWhile_last)
    moreover from x have "t \<noteq> []" by auto
    ultimately have "last u = hd t" by (simp add: last_rev)
    moreover have "\<not> isSpace (hd t)"
      using \<open>t \<noteq> []\<close> unfolding t_def by (rule hd_dropWhile)
    ultimately have "\<not> isSpace (hd (rev u))"
      using False by (simp add: hd_rev)
    then show ?thesis by (simp add: dropWhile_eq_self_iff)
  qed
  then have "trim (rev u) = rev u"
    by (simp add: trim_def u_def)
  then show ?thesis by (simp add: trim_def u_def t_def)
qed

lemma startsWith_not_null:
  "startsWith v ''http://'' \<or> startsWith v ''https://'' \<or> startsWith v ''www.'' \<Longrightarrow> v \<noteq> ''null''"
  by (auto simp: startsWith_def)

lemma www_not_http:
  "startsWith v ''www.'' \<Longrightarrow> \<not> startsWith v ''http://'' \<and> \<not> startsWith v ''https://''"
  by (cases v) (auto simp: startsWith_def)

lemma dot_not_null: "CHR ''.'' \<in> set v \<Longrightarrow> v \<noteq> ''null''"
  by auto

lemma normalizeLink_cases:
  assumes "trim v = v"
  shows "(v \<noteq> [] \<and> (startsWith v ''http://'' \<or> startsWith v ''https://'')
            \<longrightarrow> normalizeLink v = Some v)
       \<and> (v \<noteq> [] \<and> startsWith v ''www.'' \<longrightarrow> normalizeLink v = Some (''https://'' @ v))
       \<and> (v \<noteq> [] \<and> \<not> startsWith v ''http://'' \<and> \<not> startsWith v ''https://''
            \<and> \<not> startsWith v ''www.'' \<and> CHR ''.'' \<in> set v \<and> CHR '' '' \<notin> set v
            \<longrightarrow> normalizeLink v = Some (''https://'' @ v))
       \<and> (v = [] \<or> v = ''null'' \<longrightarrow> normalizeLink v = None)"
  using assms startsWith_not_null [of v] www_not_http [of v] dot_not_null [of v]
  by (auto simp: normalizeLink_def)

text \<open>
  One cell of a column whose header is \<^verbatim>\<open>link\<close>, \<^verbatim>\<open>url\<close> or \<^verbatim>\<open>reference\<close> (in
  any letter case), with \<open>v\<close> the trimmed cell: what the assignment to
  \<^verbatim>\<open>method.link\<close> stores at that moment.
\<close>

lemma cellStep_link_cases:
  assumes "isLinkHeader (trim (toLowerCase header))"
  shows "(trim cell \<noteq> [] \<and> (startsWith (trim cell) ''http://'' \<or> startsWith (trim cell) ''https://'')
            \<longrightarrow> cellStep m (header, cell) = Inr (m\<lparr>link := Some (trim cell)\<rparr>))
       \<and> (trim cell \<noteq> [] \<and> startsWith (trim cell) ''www.''
            \<longrightarrow> cellStep m (header, cell) = Inr (m\<lparr>link := Some (''https://'' @ trim cell)\<rparr>))
       \<and> (trim cell \<noteq> [] \<and> \<not> startsWith (trim cell) ''http://''
            \<and> \<not> startsWith (trim cell) ''https://'' \<and> \<not> startsWith (trim cell) ''www.''
            \<and> CHR ''.'' \<in> set (trim cell) \<and> CHR '' '' \<notin> set (trim cell)
            \<longrightarrow> cellStep m (header, cell) = Inr (m\<lparr>link := Some (''https://'' @ trim cell)\<rparr>))
       \<and> (trim cell = [] \<or> trim cell = ''null'' \<longrightarrow> cellStep m (header, cell) = Inr m)"
proof -
  have step: "cellStep m (header, cell) =
      (if trim cell = [] then Inr m
       else Inr (case normalizeLink (trim cell) of None \<Rightarrow> m | Some l \<Rightarrow> m\<lparr>link := Some l\<rparr>))"
    using assms by (simp add: cellStep_def Let_def)
  show ?thesis
    using normalizeLink_cases [OF trim_idem, of cell]
    by (auto simp: step)
qed

subsection \<open>Categories\<close>

lemma headerStep_categoriesInv:
  assumes "categoriesInv st" and "headerStep st header = Inr st'"
  shows "categoriesInv st'"
  using assms
  by (auto simp: headerStep_def Let_def categoriesInv_def split: if_splits option.splits prod.splits)

lemma headerStep_optionsInv:
  assumes "optionsInv st" and "headerStep st header = Inr st'"
  shows "optionsInv st'"
  using assms
  by (auto simp: headerStep_def Let_def optionsInv_def split: if_splits option.splits prod.splits)

lemma processHeaders_categoriesInv:
  "categoriesInv st \<Longrightarrow> processHeaders st hs = Inr st' \<Longrightarrow> categoriesInv st'"
  by (induction hs arbitrary: st) (auto split: sum.splits dest: headerStep_categoriesInv)

lemma processHeaders_optionsInv:
  "optionsInv st \<Longrightarrow> processHeaders st hs = Inr st' \<Longrightarrow> optionsInv st'"
  by (induction hs arbitrary: st) (auto split: sum.splits dest: headerStep_optionsInv)

lemma map_filter_ids:
  "\<forall>k \<in> set ks. \<exists>c. f k = Some c \<and> cat_id c = k \<Longrightarrow> map cat_id (List.map_filter f ks) = ks"
  by (induction ks) auto

lemma categoriesInv_ids:
  "categoriesInv st \<Longrightarrow> map cat_id (List.map_filter (categoryMap st) (categories st)) = categories st"
  by (rule map_filter_ids) (auto simp: categoriesInv_def)

lemma map_filter_ran: "c \<in> set (List.map_filter f ks) \<Longrightarrow> \<exists>k. f k = Some c"
  by (induction ks) (auto split: option.splits)

subsection \<open>Methods\<close>

lemma cellStep_attributesInv:
  assumes "attributesInv m" and "cellStep m hv = Inr m'"
  shows "attributesInv m'"
  using assms
  by (auto simp: cellStep_def Let_def attributesInv_def split: if_splits option.splits prod.splits)

lemma processCells_attributesInv:
  "attributesInv m \<Longrightarrow> processCells m hvs = Inr m' \<Longrightarrow> attributesInv m'"
  by (induction hvs arbitrary: m) (auto split: sum.splits dest: cellStep_attributesInv)

lemma processRow_attributesInv:
  assumes "processRow headers line = Inr (Some m)"
  shows "attributesInv m"
proof -
  have start: "attributesInv \<lparr>name = n, description = [], attributes = Map.empty,
                 link = None, link2 = None, costTier = None, connectivity = None,
                 mtype = None\<rparr>" for n
    by (simp add: attributesInv_def)
  have descr: "attributesInv (m'\<lparr>description := d\<rparr>) = attributesInv m'" for m' d
    by (simp add: attributesInv_def)
  from assms show ?thesis
    by (auto simp: processRow_def Let_def descr split: list.splits if_splits sum.splits
             dest!: processCells_attributesInv [OF start])
qed

lemma processRows_attributesInv:
  "processRows headers ls = Inr ms \<Longrightarrow> m \<in> set ms \<Longrightarrow> attributesInv m"
  by (induction ls arbitrary: ms)
     (auto split: sum.splits option.splits dest: processRow_attributesInv)

subsection \<open>The whole conversion\<close>

lemma csvToJson_Inr:
  assumes "csvToJson data = Inr j"
  obtains l0 rows st ms where
    "filter (\<lambda>line. line \<noteq> []) (map trim (split CHR 0x0A data)) = l0 # rows"
    "processHeaders \<lparr>categories = [], categoryMap = Map.empty\<rparr> (drop 1 (split CHR '';'' l0)) = Inr st"
    "processRows (split CHR '';'' l0) rows = Inr ms"
    "j = \<lparr>json_categories = List.map_filter (categoryMap st) (categories st), json_methods = ms\<rparr>"
  using assms
  by (auto simp: csvToJson_def Let_def split: list.splits sum.splits)

text \<open>The sample file converts without an exception.\<close>

lemma sample_converts: "csvToJson sampleCsv = Inr sampleJson"
proof -
  have "\<not> isl (csvToJson sampleCsv)" by code_simp
  then show ?thesis by (simp add: sampleJson_def)
qed

text \<open>
  Two inputs on which the conversion throws a \<^verbatim>\<open>TypeError\<close> and writes nothing: a
  header whose category id is an inherited property name, and a file without a
  non-empty line.
\<close>

lemma inherited_key_throws: "isl (csvToJson ''Method;Constructor - a'')"
  by code_simp

lemma empty_file_throws: "isl (csvToJson [])"
  by code_simp

text \<open>
  Claim C9. Whenever the conversion produces a catalog, the ids of its categories are
  pairwise different: headers that derive the same id share one category.
\<close>

theorem category_ids_distinct:
  assumes "csvToJson data = Inr j"
  shows "distinct (map cat_id (json_categories j))"
proof -
  from assms obtain l0 st where
    hs: "processHeaders \<lparr>categories = [], categoryMap = Map.empty\<rparr> (drop 1 (split CHR '';'' l0)) = Inr st"
    and j: "json_categories j = List.map_filter (categoryMap st) (categories st)"
    by (elim csvToJson_Inr) simp
  have "categoriesInv \<lparr>categories = [], categoryMap = Map.empty\<rparr>"
    by (simp add: categoriesInv_def)
  then have inv: "categoriesInv st"
    using hs by (rule processHeaders_categoriesInv)
  then have "map cat_id (json_categories j) = categories st"
    by (simp add: j categoriesInv_ids)
  with inv show ?thesis by (simp add: categoriesInv_def)
qed

text \<open>
  In the sample the headers \<^verbatim>\<open>SEM Level - Individual\<close>, \<^verbatim>\<open>Sem  level - Individual\<close>
  and \<^verbatim>\<open>SEM Level - Group\<close> give the single category \<^verbatim>\<open>sem_level\<close>.
\<close>

theorem category_ids_distinct_witness:
  "csvToJson sampleCsv = Inr sampleJson
   \<and> map cat_id (json_categories sampleJson) = [''sem_level'']
   \<and> distinct (map cat_id (json_categories sampleJson))"
proof -
  have ids: "map cat_id (json_categories (projr (csvToJson sampleCsv))) = [''sem_level'']"
    by code_simp
  show ?thesis
    using sample_converts ids category_ids_distinct [OF sample_converts]
    by (simp add: sampleJson_def)
qed

text \<open>
  Claim C10. Whenever the conversion produces a catalog, every array in the
  \<open>attributes\<close> of every method is free of duplicates, and so is the \<open>options\<close>
  array of every category.
\<close>

theorem no_duplicate_values:
  assumes "csvToJson data = Inr j"
  shows "(\<forall>m \<in> set (json_methods j). \<forall>categoryId xs.
            attributes m categoryId = Some xs \<longrightarrow> distinct xs)
       \<and> (\<forall>c \<in> set (json_categories j). distinct (options c))"
proof -
  from assms obtain l0 rows st ms where
    hs: "processHeaders \<lparr>categories = [], categoryMap = Map.empty\<rparr> (drop 1 (split CHR '';'' l0)) = Inr st"
    and rs: "processRows (split CHR '';'' l0) rows = Inr ms"
    and j: "j = \<lparr>json_categories = List.map_filter (categoryMap st) (categories st), json_methods = ms\<rparr>"
    by (elim csvToJson_Inr)
  have "optionsInv \<lparr>categories = [], categoryMap = Map.empty\<rparr>"
    by (simp add: optionsInv_def)
  then have "optionsInv st"
    using hs by (rule processHeaders_optionsInv)
  then have cats: "distinct (options c)" if "c \<in> set (json_categories j)" for c
    using that map_filter_ran [of c "categoryMap st" "categories st"]
    by (auto simp: j optionsInv_def)
  have "distinct xs" if "m \<in> set (json_methods j)" "attributes m categoryId = Some xs"
    for m categoryId xs
    using that processRows_attributesInv [OF rs, of m] by (auto simp: j attributesInv_def)
  with cats show ?thesis by blast
qed

text \<open>
  In the sample the first method is marked under both \<^verbatim>\<open>SEM Level - Individual\<close> and
  \<^verbatim>\<open>Sem  level - Individual\<close>, and \<^verbatim>\<open>Individual\<close> is stored once, in the method and
  in the category.
\<close>

theorem no_duplicate_values_witness:
  "csvToJson sampleCsv = Inr sampleJson
   \<and> map (\<lambda>m. attributes m ''sem_level'') (json_methods sampleJson)
        = [Some [''Individual''], Some [''Group'']]
   \<and> map options (json_categories sampleJson) = [[''Individual'', ''Group'']]
   \<and> distinct (options (hd (json_categories sampleJson)))
   \<and> distinct (orEmpty (attributes (hd (json_methods sampleJson)) ''sem_level''))"
proof -
  have attrs: "map (\<lambda>m. attributes m ''sem_level'') (json_methods (projr (csvToJson sampleCsv)))
                 = [Some [''Individual''], Some [''Group'']]"
    by code_simp
  have opts: "map options (json_categories (projr (csvToJson sampleCsv))) = [[''Individual'', ''Group'']]"
    by code_simp
  from attrs have m: "hd (json_methods sampleJson) \<in> set (json_methods sampleJson)"
    "attributes (hd (json_methods sampleJson)) ''sem_level'' = Some [''Individual'']"
    by (auto simp: sampleJson_def map_eq_Cons_conv)
  from opts have c: "hd (json_categories sampleJson) \<in> set (json_categories sampleJson)"
    by (auto simp: sampleJson_def map_eq_Cons_conv)
  show ?thesis
    using sample_converts attrs opts m c no_duplicate_values [OF sample_converts]
    by (auto simp: sampleJson_def orEmpty_def)
qed

subsection \<open>The link of a produced method\<close>

text \<open>
  A cell that stores nothing (empty, \<^verbatim>\<open>null\<close>, or not shaped like a link) leaves
  \<^verbatim>\<open>method.link\<close> as it is; a cell that stores a link overwrites what an earlier
  link column stored.
\<close>

text \<open>When the link branch stores nothing.\<close>

lemma normalizeLink_None_iff:
  "normalizeLink v = None \<longleftrightarrow>
     v = [] \<or> v = ''null'' \<or> trim v = []
     \<or> (\<not> startsWith v ''http://'' \<and> \<not> startsWith v ''https://'' \<and> \<not> startsWith v ''www.''
         \<and> (CHR ''.'' \<notin> set v \<or> CHR '' '' \<in> set v))"
  by (auto simp: normalizeLink_def)

lemma normalizeLink_Nil: "normalizeLink [] = None"
  by (simp add: normalizeLink_def)

lemma cellStep_link_header:
  assumes "isLinkHeader (trim (toLowerCase header))"
  shows "cellStep m (header, cell) =
           Inr (case normalizeLink (trim cell) of None \<Rightarrow> m | Some l \<Rightarrow> m\<lparr>link := Some l\<rparr>)"
  using assms by (simp add: cellStep_def Let_def normalizeLink_Nil)

lemma cellStep_name: "cellStep m hv = Inr m' \<Longrightarrow> name m' = name m"
  by (auto simp: cellStep_def Let_def split: if_splits option.splits prod.splits)

lemma cellStep_link_kept:
  assumes "cellStep m hv = Inr m'"
      and "isLinkHeader (trim (toLowerCase (fst hv))) \<longrightarrow> normalizeLink (trim (snd hv)) = None"
  shows "link m' = link m"
  using assms
  by (auto simp: cellStep_def Let_def split: if_splits option.splits prod.splits)

lemma processCells_name: "processCells m hvs = Inr m' \<Longrightarrow> name m' = name m"
  by (induction hvs arbitrary: m) (auto split: sum.splits dest: cellStep_name)

lemma processCells_link_kept:
  assumes "processCells m hvs = Inr m'"
      and "\<forall>hc \<in> set hvs. isLinkHeader (trim (toLowerCase (fst hc)))
             \<longrightarrow> normalizeLink (trim (snd hc)) = None"
  shows "link m' = link m"
  using assms
proof (induction hvs arbitrary: m)
  case Nil
  then show ?case by simp
next
  case (Cons hv hvs)
  from Cons.prems(1) obtain m1 where
    s: "cellStep m hv = Inr m1" and r: "processCells m1 hvs = Inr m'"
    by (auto split: sum.splits)
  from s Cons.prems(2) have "link m1 = link m"
    by (intro cellStep_link_kept) auto
  moreover from r Cons.prems(2) have "link m' = link m1"
    by (intro Cons.IH) auto
  ultimately show ?case by simp
qed

lemma processCells_append:
  "processCells m (xs @ ys) =
     (case processCells m xs of Inl e \<Rightarrow> Inl e | Inr m1 \<Rightarrow> processCells m1 ys)"
  by (induction xs arbitrary: m) (auto split: sum.splits)

lemma processCells_link_at:
  assumes run: "processCells m (before @ (header, cell) # after) = Inr m'"
      and hdr: "isLinkHeader (trim (toLowerCase header))"
      and later: "\<forall>hc \<in> set after. isLinkHeader (trim (toLowerCase (fst hc)))
                    \<longrightarrow> normalizeLink (trim (snd hc)) = None"
  shows "\<exists>m1. processCells m before = Inr m1
           \<and> link m' = (case normalizeLink (trim cell) of None \<Rightarrow> link m1 | Some l \<Rightarrow> Some l)"
proof -
  from run obtain m1 m2 where
    b: "processCells m before = Inr m1"
    and c: "cellStep m1 (header, cell) = Inr m2"
    and a: "processCells m2 after = Inr m'"
    by (auto simp: processCells_append split: sum.splits)
  from a later have "link m' = link m2" by (rule processCells_link_kept)
  moreover from c have "link m2 = (case normalizeLink (trim cell) of None \<Rightarrow> link m1 | Some l \<Rightarrow> Some l)"
    by (auto simp: cellStep_link_header [OF hdr] split: option.splits)
  ultimately show ?thesis using b by simp
qed

lemma processRow_Some:
  assumes "processRow headers line = Inr (Some m)" and "split CHR '';'' line = v0 # vs"
  shows "\<exists>m'. processCells
                \<lparr>name = trim v0, description = [], attributes = Map.empty,
                 link = None, link2 = None, costTier = None, connectivity = None,
                 mtype = None\<rparr>
                (zip (drop 1 headers) vs) = Inr m'
              \<and> link m = link m' \<and> name m = trim v0"
  using assms
  by (auto simp: processRow_def Let_def split: if_splits sum.splits dest: processCells_name)

lemma processRow_named:
  assumes "processRow headers line = Inr r"
  shows "(r = None) = (methodNameOf line = [])"
  using assms
  by (auto simp: processRow_def methodNameOf_def Let_def split: list.splits if_splits sum.splits)

lemma processRows_nth:
  assumes "processRows headers (pre @ line # post) = Inr ms"
      and "methodNameOf line \<noteq> []"
  shows "length (filter (\<lambda>l. methodNameOf l \<noteq> []) pre) < length ms
       \<and> processRow headers line
           = Inr (Some (ms ! length (filter (\<lambda>l. methodNameOf l \<noteq> []) pre)))"
  using assms
proof (induction pre arbitrary: ms)
  case Nil
  then show ?case
    by (auto split: sum.splits option.splits dest: processRow_named)
next
  case (Cons p pre)
  from Cons.prems(1) obtain r ms' where
    p: "processRow headers p = Inr r"
    and rest: "processRows headers (pre @ line # post) = Inr ms'"
    and ms: "ms = (case r of None \<Rightarrow> ms' | Some m \<Rightarrow> m # ms')"
    by (auto split: sum.splits)
  from Cons.IH [OF rest Cons.prems(2)] processRow_named [OF p] ms
  show ?case by (cases r) auto
qed


text \<open>
  Claim C8, as stated, fails on the produced catalog. With two \<^verbatim>\<open>Link\<close> columns the
  first cell \<^verbatim>\<open>http://a.org\<close> is not empty and starts with \<^verbatim>\<open>http://\<close>, yet the
  link of the produced method is \<^verbatim>\<open>https://www.b.org\<close>, from the second column.
\<close>

theorem link_overwritten_counterexample:
  "isLinkHeader (trim (toLowerCase ''Link''))
   \<and> split CHR 0x0A twoLinkCsv = [''Method;Link;Link'', ''Interviews;http://a.org;www.b.org'']
   \<and> split CHR '';'' ''Method;Link;Link'' = [''Method'', ''Link'', ''Link'']
   \<and> split CHR '';'' ''Interviews;http://a.org;www.b.org''
        = [''Interviews'', ''http://a.org'', ''www.b.org'']
   \<and> startsWith (trim ''http://a.org'') ''http://''
   \<and> \<not> isl (csvToJson twoLinkCsv)
   \<and> map name (json_methods (projr (csvToJson twoLinkCsv))) = [''Interviews'']
   \<and> map link (json_methods (projr (csvToJson twoLinkCsv))) = [Some ''https://www.b.org'']
   \<and> Some ''https://www.b.org'' \<noteq> Some (trim ''http://a.org'')"
  by code_simp

text \<open>
  Claim C8, amended. Let the conversion produce a catalog, take a data row with a
  non-empty method name, and in it the cell of a link column (header \<^verbatim>\<open>link\<close>,
  \<^verbatim>\<open>url\<close> or \<^verbatim>\<open>reference\<close>) such that no later link column of the row stores a
  link. The method produced from the row is the \<open>k\<close>-th of the output, \<open>k\<close> being
  the number of earlier rows with a method name. With \<open>v\<close> the trimmed cell, its link
  is \<open>v\<close> when \<open>v\<close> starts with \<^verbatim>\<open>http://\<close> or \<^verbatim>\<open>https://\<close>; it is
  \<^verbatim>\<open>https://\<close> followed by \<open>v\<close> when \<open>v\<close> starts with \<^verbatim>\<open>www.\<close>, or otherwise
  has a dot and no space. When \<open>v\<close> is empty or \<^verbatim>\<open>null\<close> and no earlier link column
  of the row stores a link either, the method has no link.
\<close>

theorem link_of_produced_method:
  assumes conv: "csvToJson data = Inr j"
      and lines: "filter (\<lambda>line. line \<noteq> []) (map trim (split CHR 0x0A data)) = headerLine # rows"
      and row: "rows = pre @ line # post"
      and vals: "split CHR '';'' line = nameCell # vs"
      and named: "trim nameCell \<noteq> []"
      and cells: "zip (drop 1 (split CHR '';'' headerLine)) vs = before @ (header, cell) # after"
      and hdr: "isLinkHeader (trim (toLowerCase header))"
      and later: "\<forall>hc \<in> set after. isLinkHeader (trim (toLowerCase (fst hc)))
                    \<longrightarrow> normalizeLink (trim (snd hc)) = None"
      and k: "k = length (filter (\<lambda>l. methodNameOf l \<noteq> []) pre)"
  shows "k < length (json_methods j) \<and> name (json_methods j ! k) = trim nameCell
       \<and> (trim cell \<noteq> [] \<and> (startsWith (trim cell) ''http://'' \<or> startsWith (trim cell) ''https://'')
            \<longrightarrow> link (json_methods j ! k) = Some (trim cell))
       \<and> (trim cell \<noteq> [] \<and> startsWith (trim cell) ''www.''
            \<longrightarrow> link (json_methods j ! k) = Some (''https://'' @ trim cell))
       \<and> (trim cell \<noteq> [] \<and> \<not> startsWith (trim cell) ''http://''
            \<and> \<not> startsWith (trim cell) ''https://'' \<and> \<not> startsWith (trim cell) ''www.''
            \<and> CHR ''.'' \<in> set (trim cell) \<and> CHR '' '' \<notin> set (trim cell)
            \<longrightarrow> link (json_methods j ! k) = Some (''https://'' @ trim cell))
       \<and> ((trim cell = [] \<or> trim cell = ''null'')
            \<and> (\<forall>hc \<in> set before. isLinkHeader (trim (toLowerCase (fst hc)))
                   \<longrightarrow> normalizeLink (trim (snd hc)) = None)
            \<longrightarrow> link (json_methods j ! k) = None)"
proof -
  from conv lines obtain ms where
    rs: "processRows (split CHR '';'' headerLine) rows = Inr ms" and j: "json_methods j = ms"
    by (auto elim!: csvToJson_Inr)
  from vals named have nm: "methodNameOf line \<noteq> []"
    by (simp add: methodNameOf_def)
  from processRows_nth [OF rs [unfolded row] nm]
  have kl: "k < length ms" and pr: "processRow (split CHR '';'' headerLine) line = Inr (Some (ms ! k))"
    by (simp_all add: k)
  from processRow_Some [OF pr vals, unfolded cells] obtain m' where
    run: "processCells
            \<lparr>name = trim nameCell, description = [], attributes = Map.empty,
             link = None, link2 = None, costTier = None, connectivity = None,
             mtype = None\<rparr>
            (before @ (header, cell) # after) = Inr m'"
    and lk: "link (ms ! k) = link m'" and nmk: "name (ms ! k) = trim nameCell"
    by blast
  from processCells_link_at [OF run hdr later] obtain m1 where
    b: "processCells
          \<lparr>name = trim nameCell, description = [], attributes = Map.empty,
           link = None, link2 = None, costTier = None, connectivity = None,
           mtype = None\<rparr> before = Inr m1"
    and at: "link m' = (case normalizeLink (trim cell) of None \<Rightarrow> link m1 | Some l \<Rightarrow> Some l)"
    by blast
  have none: "link m1 = None"
    if "\<forall>hc \<in> set before. isLinkHeader (trim (toLowerCase (fst hc)))
           \<longrightarrow> normalizeLink (trim (snd hc)) = None"
    using processCells_link_kept [OF b that] by simp
  show ?thesis
    using normalizeLink_cases [OF trim_idem, of cell] kl nmk none
    by (auto simp: j lk at)
qed

lemma linkCsv_converts: "csvToJson linkCsv = Inr linkJson"
proof -
  have "\<not> isl (csvToJson linkCsv)" by code_simp
  then show ?thesis by (simp add: linkJson_def)
qed

lemma linkCsv_lines:
  "filter (\<lambda>line. line \<noteq> []) (map trim (split CHR 0x0A linkCsv)) =
     ''Method;Link;URL'' #
     [''A;http://example.org/a'', '';x'', ''B;null; www.example.org'',
      ''C;example.org/a;null'', ''D;null;'']"
  by code_simp

lemma linkCsv_headers: "drop 1 (split CHR '';'' ''Method;Link;URL'') = [''Link'', ''URL'']"
  by code_simp

lemma linkCsv_isLink:
  "isLinkHeader (trim (toLowerCase ''Link''))" "isLinkHeader (trim (toLowerCase ''URL''))"
  by code_simp+

lemma linkCsv_rows:
  "split CHR '';'' ''A;http://example.org/a'' = ''A'' # [''http://example.org/a'']"
  "split CHR '';'' ''B;null; www.example.org'' = ''B'' # [''null'', '' www.example.org'']"
  "split CHR '';'' ''C;example.org/a;null'' = ''C'' # [''example.org/a'', ''null'']"
  "split CHR '';'' ''D;null;'' = ''D'' # [''null'', []]"
  by code_simp+

lemma linkCsv_names:
  "trim ''A'' = ''A''" "trim ''B'' = ''B''" "trim ''C'' = ''C''" "trim ''D'' = ''D''"
  "methodNameOf ''A;http://example.org/a'' = ''A''"
  "methodNameOf '';x'' = []"
  "methodNameOf ''B;null; www.example.org'' = ''B''"
  "methodNameOf ''C;example.org/a;null'' = ''C''"
  by code_simp+

lemma linkCsv_cells:
  "trim ''http://example.org/a'' = ''http://example.org/a''"
  "trim '' www.example.org'' = ''www.example.org''"
  "trim ''example.org/a'' = ''example.org/a''"
  "trim ''null'' = ''null''"
  "trim [] = []"
  "normalizeLink ''null'' = None"
  by code_simp+

theorem link_of_produced_method_witness:
  "csvToJson linkCsv = Inr linkJson
   \<and> name (json_methods linkJson ! 0) = ''A''
   \<and> link (json_methods linkJson ! 0) = Some ''http://example.org/a''
   \<and> name (json_methods linkJson ! 1) = ''B''
   \<and> link (json_methods linkJson ! 1) = Some ''https://www.example.org''
   \<and> name (json_methods linkJson ! 2) = ''C''
   \<and> link (json_methods linkJson ! 2) = Some ''https://example.org/a''
   \<and> name (json_methods linkJson ! 3) = ''D''
   \<and> link (json_methods linkJson ! 3) = None"
proof -
  note inst = link_of_produced_method [OF linkCsv_converts linkCsv_lines]
  have a: "name (json_methods linkJson ! 0) = ''A''
         \<and> link (json_methods linkJson ! 0) = Some ''http://example.org/a''"
    using inst [where pre = "[]" and line = "''A;http://example.org/a''"
                 and nameCell = "''A''" and vs = "[''http://example.org/a'']"
                 and before = "[]" and header = "''Link''" and cell = "''http://example.org/a''"
                 and after = "[]" and k = 0]
    by (simp add: linkCsv_headers linkCsv_isLink linkCsv_rows linkCsv_names linkCsv_cells
          startsWith_def)
  have b: "name (json_methods linkJson ! 1) = ''B''
         \<and> link (json_methods linkJson ! 1) = Some ''https://www.example.org''"
    using inst [where pre = "[''A;http://example.org/a'', '';x'']"
                 and line = "''B;null; www.example.org''"
                 and nameCell = "''B''" and vs = "[''null'', '' www.example.org'']"
                 and before = "[(''Link'', ''null'')]" and header = "''URL''"
                 and cell = "'' www.example.org''" and after = "[]" and k = 1]
    by (simp add: linkCsv_headers linkCsv_isLink linkCsv_rows linkCsv_names linkCsv_cells
          startsWith_def)
  have c: "name (json_methods linkJson ! 2) = ''C''
         \<and> link (json_methods linkJson ! 2) = Some ''https://example.org/a''"
    using inst [where pre = "[''A;http://example.org/a'', '';x'', ''B;null; www.example.org'']"
                 and line = "''C;example.org/a;null''"
                 and nameCell = "''C''" and vs = "[''example.org/a'', ''null'']"
                 and before = "[]" and header = "''Link''"
                 and cell = "''example.org/a''" and after = "[(''URL'', ''null'')]" and k = 2]
    by (simp add: linkCsv_headers linkCsv_isLink linkCsv_rows linkCsv_names linkCsv_cells
          startsWith_def)
  have d: "name (json_methods linkJson ! 3) = ''D''
         \<and> link (json_methods linkJson ! 3) = None"
    using inst [where pre = "[''A;http://example.org/a'', '';x'', ''B;null; www.example.org'',
                            ''C;example.org/a;null'']"
                 and line = "''D;null;''"
                 and nameCell = "''D''" and vs = "[''null'', []]"
                 and before = "[(''Link'', ''null'')]" and header = "''URL''"
                 and cell = "[]" and after = "[]" and k = 3]
    by (simp add: linkCsv_headers linkCsv_isLink linkCsv_rows linkCsv_names linkCsv_cells
          startsWith_def)
  show ?thesis
    using linkCsv_converts a b c d by simp
qed

end
